theory Spec2Isabelle
  imports Main "HOL-Library.Word"
begin

unbundle bit_operations_syntax

section \<open>Data model\<close>

text \<open>
  The generator works on \<open>uint64_t\<close> values; all arithmetic on them wraps modulo
  \<open>2 ^ 64\<close>. The 128-bit products of the bounded sampler are \<open>__uint128_t\<close>.
\<close>

type_synonym u64 = "64 word"
type_synonym u128 = "128 word"

text \<open>
  \<open>state_type\<close> is \<open>std::array<uint64_t, 4>\<close>: the four fields are the elements
  \<open>state_[0]\<close> to \<open>state_[3]\<close>.
\<close>

record state_type =
  s0 :: u64
  s1 :: u64
  s2 :: u64
  s3 :: u64

text \<open>
  \<open>class Xoshiro256StarStarEngine\<close> has the single data member \<open>state_\<close>, here
  \<open>state_member\<close> (a name cannot end in an underscore). \<open>class Random\<close> derives
  from it and adds no member, so both are this record.
\<close>

record Xoshiro256StarStarEngine =
  state_member :: state_type

section \<open>detail::rotl and detail::splitmix64\<close>

text \<open>
  \<open>rotl(x, k) = (x << k) | (x >> (64 - k))\<close>. Its two call sites pass the constants
  7 and 45, for which both shifts are defined in C++.
\<close>

definition rotl :: "u64 \<Rightarrow> nat \<Rightarrow> u64" where
  "rotl x k = push_bit k x OR drop_bit (64 - k) x"

text \<open>
  \<open>splitmix64(uint64_t *state)\<close> updates the word it points to and returns the mixed
  value: the model returns the pair (result, new value of \<open>*state\<close>).
\<close>

definition splitmix64 :: "u64 \<Rightarrow> u64 \<times> u64" where
  "splitmix64 st =
     (let st' = st + 0x9e3779b97f4a7c15;
          z = st';
          z = (z XOR drop_bit 30 z) * 0xbf58476d1ce4e5b9;
          z = (z XOR drop_bit 27 z) * 0x94d049bb133111eb
      in (z XOR drop_bit 31 z, st'))"

section \<open>The engine\<close>

definition state :: "Xoshiro256StarStarEngine \<Rightarrow> state_type" where
  "state e = state_member e"

definition set_state :: "state_type \<Rightarrow> Xoshiro256StarStarEngine \<Rightarrow> Xoshiro256StarStarEngine" where
  "set_state st e = e\<lparr>state_member := st\<rparr>"

text \<open>
  \<open>next()\<close> returns the output word and the engine after the transition. The
  assignments are made one after the other on the state, as in the source.
\<close>

definition "next" :: "Xoshiro256StarStarEngine \<Rightarrow> u64 \<times> Xoshiro256StarStarEngine" where
  "next e =
     (let st = state_member e;
          result_starstar = rotl (s1 st * 5) 7 * 9;
          t = push_bit 17 (s1 st);
          st = st\<lparr>s2 := s2 st XOR s0 st\<rparr>;
          st = st\<lparr>s3 := s3 st XOR s1 st\<rparr>;
          st = st\<lparr>s1 := s1 st XOR s2 st\<rparr>;
          st = st\<lparr>s0 := s0 st XOR s3 st\<rparr>;
          st = st\<lparr>s2 := s2 st XOR t\<rparr>;
          st = st\<lparr>s3 := rotl (s3 st) 45\<rparr>
      in (result_starstar, e\<lparr>state_member := st\<rparr>))"

text \<open>\<open>operator()\<close> is \<open>next()\<close>.\<close>

definition call_op :: "Xoshiro256StarStarEngine \<Rightarrow> u64 \<times> Xoshiro256StarStarEngine" where
  "call_op e = next e"

text \<open>
  \<open>discard(z)\<close>: the loop \<open>for(; z != 0; --z) next();\<close> on a 64-bit counter.
\<close>

function discard :: "u64 \<Rightarrow> Xoshiro256StarStarEngine \<Rightarrow> Xoshiro256StarStarEngine" where
  "discard z e = (if z \<noteq> 0 then discard (z - 1) (snd (next e)) else e)"
  by pat_completeness auto
termination
  by (relation "measure (\<lambda>(z, e). unat z)") (auto simp: unat_minus_one unat_gt_0)

declare discard.simps [simp del]

text \<open>
  The inner loop of both \<open>seed\<close> functions, \<open>for(auto &&a : state_) a +=
  splitmix64(&s);\<close>: the four words in index order, \<open>s\<close> advanced by each call.
  It returns the advanced \<open>s\<close> and the state.
\<close>

definition add_mixed_bits :: "u64 \<Rightarrow> state_type \<Rightarrow> u64 \<times> state_type" where
  "add_mixed_bits s st =
     (let (r, s) = splitmix64 s; st = st\<lparr>s0 := s0 st + r\<rparr>;
          (r, s) = splitmix64 s; st = st\<lparr>s1 := s1 st + r\<rparr>;
          (r, s) = splitmix64 s; st = st\<lparr>s2 := s2 st + r\<rparr>;
          (r, s) = splitmix64 s; st = st\<lparr>s3 := s3 st + r\<rparr>
      in (s, st))"

text \<open>\<open>seed(result_type s)\<close>: seed the state with a single value.\<close>

definition seed :: "u64 \<Rightarrow> Xoshiro256StarStarEngine \<Rightarrow> Xoshiro256StarStarEngine" where
  "seed s e =
     (let st = \<lparr>s0 = 0x5FAF84EE2AA04CFF, s1 = 0xB3A2EF3524D89987,
                s2 = 0x5A82B68EF098F79D, s3 = 0x5D7AA03298486D6E\<rparr>;
          (s, st) = add_mixed_bits s st;
          st = (if s0 st = 0 \<and> s1 st = 0 \<and> s2 st = 0 \<and> s3 st = 0
                then st\<lparr>s1 := 0x1615CA18E55EE70C\<rparr> else st)
      in discard 256 (e\<lparr>state_member := st\<rparr>))"

text \<open>
  \<open>seed(Sseq &ss)\<close>: seed the state with multiple values. Each element is copied into
  a fresh \<open>s\<close>, so the advanced \<open>s\<close> of one round is dropped.
\<close>

definition seed_seq :: "u64 list \<Rightarrow> Xoshiro256StarStarEngine \<Rightarrow> Xoshiro256StarStarEngine" where
  "seed_seq ss e =
     (let st = \<lparr>s0 = 0x5FAF84EE2AA04CFF, s1 = 0xB3A2EF3524D89987,
                s2 = 0x5A82B68EF098F79D, s3 = 0x5D7AA03298486D6E\<rparr>;
          st = fold (\<lambda>s st. snd (add_mixed_bits s st)) ss st;
          st = (if s0 st = 0 \<and> s1 st = 0 \<and> s2 st = 0 \<and> s3 st = 0
                then st\<lparr>s1 := 0x1615CA18E55EE70C\<rparr> else st)
      in discard 256 (e\<lparr>state_member := st\<rparr>))"

section \<open>The distribution layer\<close>

text \<open>
  What C++ leaves undefined is an error value of the model: a shift of a 64-bit operand
  by a negative amount or by 64 or more, and a remainder by zero.
\<close>

datatype error = UndefinedShift | DivisionByZero

definition random_u32 :: "u64 \<Rightarrow> 32 word" where
  "random_u32 u = ucast (drop_bit 32 u)"

definition random_u32_pair :: "u64 \<Rightarrow> 32 word \<times> 32 word" where
  "random_u32_pair u = (ucast u, ucast (drop_bit 32 u))"

text \<open>
  The \<open>while(l < t)\<close> loop of \<open>random_u64_limited\<close>. The callback \<open>get\<close> is a function
  from its own state \<open>'g\<close> to the word drawn and the state after the draw. The loop
  variables are \<open>m\<close> and the callback's state; \<open>l\<close> is \<open>static_cast<uint64_t>(m)\<close>
  each time it is read. The loop need not end: \<open>None\<close> is a run that never leaves it.
\<close>

partial_function (option) redraw ::
  "u64 \<Rightarrow> ('g \<Rightarrow> u64 \<times> 'g) \<Rightarrow> u64 \<Rightarrow> u128 \<Rightarrow> 'g \<Rightarrow> (u128 \<times> 'g) option" where
  "redraw max_value get t m g =
     (if (ucast m :: u64) < t
      then (let (x, g') = get g in redraw max_value get t (ucast x * ucast max_value) g')
      else Some (m, g))"

declare redraw.simps [code]

text \<open>
  \<open>random_u64_limited(max_value, get)\<close>. The remainder \<open>-max_value % max_value\<close> is
  undefined for \<open>max_value = 0\<close>: the model returns the error where the source would
  evaluate it.
\<close>

definition random_u64_limited ::
  "u64 \<Rightarrow> ('g \<Rightarrow> u64 \<times> 'g) \<Rightarrow> 'g \<Rightarrow> (error + u64 \<times> 'g) option" where
  "random_u64_limited max_value get g =
     (let (x, g) = get g;
          m = (ucast x :: u128) * ucast max_value;
          l = (ucast m :: u64)
      in if l < max_value
         then (if max_value = 0 then Some (Inl DivisionByZero)
               else (let t = (- max_value) mod max_value
                     in case redraw max_value get t m g of
                          None \<Rightarrow> None
                        | Some (m, g) \<Rightarrow> Some (Inr (ucast (drop_bit 64 m), g))))
         else Some (Inr (ucast (drop_bit 64 m), g)))"

text \<open>\<open>Random::bits()\<close> and \<open>Random::bits(int b)\<close>.\<close>

definition bits :: "Xoshiro256StarStarEngine \<Rightarrow> u64 \<times> Xoshiro256StarStarEngine" where
  "bits e = call_op e"

definition bits_b :: "int \<Rightarrow> Xoshiro256StarStarEngine \<Rightarrow> error + u64 \<times> Xoshiro256StarStarEngine" where
  "bits_b b e =
     (let (raw, e) = bits e
      in if 0 \<le> 64 - b \<and> 64 - b < 64 then Inr (drop_bit (nat (64 - b)) raw, e)
         else Inl UndefinedShift)"

text \<open>\<open>Random::u64()\<close>, \<open>Random::u64(uint64_t max_value)\<close>, \<open>u32()\<close>, \<open>u32_pair()\<close>.\<close>

definition u64 :: "Xoshiro256StarStarEngine \<Rightarrow> u64 \<times> Xoshiro256StarStarEngine" where
  "u64 e = bits e"

definition u64_limited ::
  "u64 \<Rightarrow> Xoshiro256StarStarEngine \<Rightarrow> (error + u64 \<times> Xoshiro256StarStarEngine) option" where
  "u64_limited max_value e = random_u64_limited max_value call_op e"

definition u32 :: "Xoshiro256StarStarEngine \<Rightarrow> 32 word \<times> Xoshiro256StarStarEngine" where
  "u32 e = (let (u, e) = bits e in (random_u32 u, e))"

definition u32_pair ::
  "Xoshiro256StarStarEngine \<Rightarrow> (32 word \<times> 32 word) \<times> Xoshiro256StarStarEngine" where
  "u32_pair e = (let (u, e) = bits e in (random_u32_pair u, e))"

text \<open>
  \<open>Random::f52()\<close> and \<open>Random::f53()\<close> draw one word with \<open>bits()\<close> and hand it to
  \<open>detail::random_f52\<close> or \<open>detail::random_f53\<close>, which compute in \<open>double\<close>. The
  floating-point conversion is the parameter \<open>conv\<close>; what the call does to the engine
  does not depend on it.
\<close>

definition f52 :: "(u64 \<Rightarrow> 'd) \<Rightarrow> Xoshiro256StarStarEngine \<Rightarrow> 'd \<times> Xoshiro256StarStarEngine" where
  "f52 conv e = (let (u, e) = bits e in (conv u, e))"

definition f53 :: "(u64 \<Rightarrow> 'd) \<Rightarrow> Xoshiro256StarStarEngine \<Rightarrow> 'd \<times> Xoshiro256StarStarEngine" where
  "f53 conv e = (let (u, e) = bits e in (conv u, e))"

section \<open>Notions used to state the properties\<close>

definition all_zero :: "state_type \<Rightarrow> bool" where
  "all_zero st \<longleftrightarrow> s0 st = 0 \<and> s1 st = 0 \<and> s2 st = 0 \<and> s3 st = 0"

text \<open>The outputs of \<open>n\<close> successive calls of \<open>next()\<close>, first call first.\<close>

fun next_outputs :: "nat \<Rightarrow> Xoshiro256StarStarEngine \<Rightarrow> u64 list" where
  "next_outputs 0 e = []"
| "next_outputs (Suc n) e = fst (next e) # next_outputs n (snd (next e))"

text \<open>
  The \<open>n\<close>-th word (from 0) that a callback hands out from the state \<open>g\<close>, and the
  callback's state after \<open>n\<close> draws.
\<close>

definition after_draws :: "('g \<Rightarrow> u64 \<times> 'g) \<Rightarrow> nat \<Rightarrow> 'g \<Rightarrow> 'g" where
  "after_draws get n g = ((\<lambda>g. snd (get g)) ^^ n) g"

definition raw_word :: "('g \<Rightarrow> u64 \<times> 'g) \<Rightarrow> 'g \<Rightarrow> nat \<Rightarrow> u64" where
  "raw_word get g n = fst (get (after_draws get n g))"

text \<open>
  A raw word \<open>x\<close> is accepted for the bound \<open>max_value\<close> when the low 64 bits of the
  product \<open>x * max_value\<close> reach the threshold \<open>(2 ^ 64 - max_value) mod max_value\<close>.
\<close>

definition accepted :: "u64 \<Rightarrow> u64 \<Rightarrow> bool" where
  "accepted max_value x \<longleftrightarrow>
     (2 ^ 64 - unat max_value) mod unat max_value \<le> unat x * unat max_value mod 2 ^ 64"

text \<open>
  The mixer and the seeded state as the specification words them, for comparison with
  \<open>splitmix64\<close> and \<open>seed\<close>: \<open>spec_mix\<close> is two rounds of xor-shift and multiplication
  followed by a last xor-shift; \<open>spec_seeded_state v\<close> is the four constants, each with the
  mixer's output for \<open>v\<close> advanced one to four times added, and the second word replaced
  when all four words are zero.
\<close>

definition spec_mix :: "u64 \<Rightarrow> u64" where
  "spec_mix z =
     (let z = (z XOR drop_bit 30 z) * 0xbf58476d1ce4e5b9;
          z = (z XOR drop_bit 27 z) * 0x94d049bb133111eb
      in z XOR drop_bit 31 z)"

definition spec_seeded_state :: "u64 \<Rightarrow> state_type" where
  "spec_seeded_state v =
     (let st = \<lparr>s0 = 0x5FAF84EE2AA04CFF + spec_mix (v + 0x9e3779b97f4a7c15),
                s1 = 0xB3A2EF3524D89987 + spec_mix (v + 2 * 0x9e3779b97f4a7c15),
                s2 = 0x5A82B68EF098F79D + spec_mix (v + 3 * 0x9e3779b97f4a7c15),
                s3 = 0x5D7AA03298486D6E + spec_mix (v + 4 * 0x9e3779b97f4a7c15)\<rparr>
      in if all_zero st then st\<lparr>s1 := 0x1615CA18E55EE70C\<rparr> else st)"

section \<open>Properties of the engine\<close>

lemma rotl_word_rotl:
  assumes "0 < k" and "k < 64"
  shows "rotl x k = word_rotl k x"
proof (rule bit_word_eqI)
  fix n
  assume "n < LENGTH(64)"
  then have n: "n < 64" by simp
  have L: "bit (rotl x k) n = ((k \<le> n \<and> bit x (n - k)) \<or> bit x (64 - k + n))"
    using n by (simp add: rotl_def bit_simps)
  have R: "bit (word_rotl k x) n = bit x ((n + (64 - k)) mod 64)"
    using n assms by (simp add: bit_word_rotl_iff)
  show "bit (rotl x k) n = bit (word_rotl k x) n"
  proof (cases "k \<le> n")
    case True
    then have "(n + (64 - k)) mod 64 = n - k" using n assms by (simp add: mod_if)
    moreover have "\<not> bit x (64 - k + n)"
      using True assms bit_imp_le_length [of x "64 - k + n"] by auto
    ultimately show ?thesis using True L R by simp
  next
    case False
    then have "(n + (64 - k)) mod 64 = 64 - k + n" using n assms by simp
    with False L R show ?thesis by simp
  qed
qed

lemma word_rotl_zero_iff: "word_rotl k x = 0 \<longleftrightarrow> x = 0"
proof
  assume "word_rotl k x = 0"
  then have "word_rotr k (word_rotl k x) = word_rotr k 0" by simp
  then show "x = 0" by simp
qed simp

lemma shift17_fixed_point:
  fixes x :: u64
  assumes "push_bit 17 x = x"
  shows "x = 0"
proof -
  have "\<not> bit x n" for n
  proof (induction n rule: less_induct)
    case (less n)
    have "bit x n = bit (push_bit 17 x) n" using assms by simp
    also have "\<dots> = (17 \<le> n \<and> n < 64 \<and> bit x (n - 17))" by (auto simp: bit_simps)
    finally show ?case using less [of "n - 17"] by auto
  qed
  then show ?thesis by (simp add: bit_eq_iff)
qed

lemma next_closed_form:
  "next \<lparr>state_member = \<lparr>s0 = a, s1 = b, s2 = c, s3 = d\<rparr>\<rparr> =
     (word_rotl 7 (b * 5) * 9,
      \<lparr>state_member = \<lparr>s0 = a XOR (d XOR b), s1 = b XOR (c XOR a),
         s2 = (c XOR a) XOR push_bit 17 b, s3 = word_rotl 45 (d XOR b)\<rparr>\<rparr>)"
  by (simp add: next_def Let_def rotl_word_rotl)

lemma engine_cases:
  obtains a b c d where "e = \<lparr>state_member = \<lparr>s0 = a, s1 = b, s2 = c, s3 = d\<rparr>\<rparr>"
  by (cases e, cases "state_member e") auto

lemma xor_eq_0_iff: "a XOR b = 0 \<longleftrightarrow> a = (b :: u64)"
proof
  assume "a XOR b = 0"
  then have "(a XOR b) XOR b = b" by simp
  then show "a = b" by (simp add: xor.assoc)
qed simp

lemma next_all_zero_iff:
  "all_zero (state (snd (next e))) \<longleftrightarrow> all_zero (state e)"
proof -
  obtain a b c d where e: "e = \<lparr>state_member = \<lparr>s0 = a, s1 = b, s2 = c, s3 = d\<rparr>\<rparr>"
    by (rule engine_cases)
  show ?thesis
  proof
    assume "all_zero (state (snd (next e)))"
    then have 0: "a XOR (d XOR b) = 0" and 1: "b XOR (c XOR a) = 0"
      and 2: "(c XOR a) XOR push_bit 17 b = 0" and 3: "word_rotl 45 (d XOR b) = 0"
      by (simp_all add: e next_closed_form all_zero_def state_def)
    from 3 have db: "d XOR b = 0" by (simp add: word_rotl_zero_iff)
    with 0 have a: "a = 0" by simp
    from 1 a have bc: "b = c" by (simp add: xor_eq_0_iff)
    from 2 a bc have "push_bit 17 b = b" by (simp add: xor_eq_0_iff)
    then have b: "b = 0" by (rule shift17_fixed_point)
    from db b have "d = 0" by simp
    with a b bc show "all_zero (state e)" by (simp add: e all_zero_def state_def)
  next
    assume "all_zero (state e)"
    then show "all_zero (state (snd (next e)))"
      by (simp add: e next_closed_form all_zero_def state_def)
  qed
qed

lemma after_draws_0 [simp]: "after_draws get 0 g = g"
  by (simp add: after_draws_def)

lemma after_draws_Suc: "after_draws get (Suc n) g = snd (get (after_draws get n g))"
  by (simp add: after_draws_def)

lemma after_draws_Suc_right: "after_draws get (Suc n) g = after_draws get n (snd (get g))"
  unfolding after_draws_def by (simp only: funpow_Suc_right comp_def)

lemma raw_word_0 [simp]: "raw_word get g 0 = fst (get g)"
  by (simp add: raw_word_def)

lemma raw_word_Suc: "raw_word get g (Suc n) = raw_word get (snd (get g)) n"
  by (simp add: raw_word_def after_draws_Suc_right)

lemma discard_after_draws: "discard z e = after_draws next (unat z) e"
proof (induction z e rule: discard.induct)
  case (1 z e)
  show ?case
  proof (cases "z = 0")
    case True
    then show ?thesis by (simp add: discard.simps)
  next
    case False
    then have "unat z = Suc (unat (z - 1))"
      by (simp add: unat_minus_one unat_gt_0)
    with False 1 show ?thesis
      by (simp add: discard.simps [of z] after_draws_Suc_right)
  qed
qed

lemma after_draws_next_all_zero:
  "all_zero (state (after_draws next n e)) \<longleftrightarrow> all_zero (state e)"
  by (induction n) (simp_all add: after_draws_Suc next_all_zero_iff)

lemma discard_all_zero: "all_zero (state (discard z e)) \<longleftrightarrow> all_zero (state e)"
  by (simp add: discard_after_draws after_draws_next_all_zero)

lemma last_next_outputs:
  "last (next_outputs (Suc n) e) = fst (next (after_draws next n e))"
proof (induction n arbitrary: e)
  case 0
  show ?case by simp
next
  case (Suc n)
  have "last (next_outputs (Suc (Suc n)) e) = last (next_outputs (Suc n) (snd (next e)))"
    by simp
  also have "\<dots> = fst (next (after_draws next n (snd (next e))))"
    by (rule Suc.IH)
  finally show ?case by (simp only: after_draws_Suc_right)
qed

lemma redraw_Some_after_draws_aux:
  assumes "redraw max_value get t m g = Some y"
  shows "\<exists>k. snd y = after_draws get k g"
proof (rule redraw.raw_induct
    [where P = "\<lambda>max_value get t m g y. \<exists>k. snd y = after_draws get k g", OF _ assms])
  fix redraw' :: "u64 \<Rightarrow> ('a \<Rightarrow> u64 \<times> 'a) \<Rightarrow> u64 \<Rightarrow> u128 \<Rightarrow> 'a \<Rightarrow> (u128 \<times> 'a) option"
    and max_value get t m g y
  assume IH: "\<And>max_value get t m g y. redraw' max_value get t m g = Some y \<Longrightarrow>
      \<exists>k. snd y = after_draws get k g"
    and body: "(if (ucast m :: u64) < t
        then (let (x, g') = get g in redraw' max_value get t (ucast x * ucast max_value) g')
        else Some (m, g)) = Some y"
  show "\<exists>k. snd y = after_draws get k g"
  proof (cases "(ucast m :: u64) < t")
    case True
    with body have
      "redraw' max_value get t (ucast (fst (get g)) * ucast max_value) (snd (get g)) = Some y"
      by (simp add: case_prod_unfold Let_def)
    from IH [OF this] obtain k where "snd y = after_draws get k (snd (get g))" ..
    then have "snd y = after_draws get (Suc k) g"
      by (simp only: after_draws_Suc_right)
    then show ?thesis ..
  next
    case False
    with body have "snd y = after_draws get 0 g" by auto
    then show ?thesis ..
  qed
qed

lemma redraw_Some_after_draws:
  assumes "redraw max_value get t m g = Some (m', g')"
  shows "\<exists>k. g' = after_draws get k g"
  using redraw_Some_after_draws_aux [OF assms] by simp

lemma random_u64_limited_Inr_after_draws:
  assumes "random_u64_limited max_value get g = Some (Inr (r, g'))"
  shows "\<exists>k. g' = after_draws get (Suc k) g"
proof (cases "(ucast ((ucast (fst (get g)) :: u128) * ucast max_value) :: u64) < max_value")
  case False
  with assms have "g' = after_draws get (Suc 0) g"
    by (simp add: random_u64_limited_def case_prod_unfold Let_def after_draws_Suc)
  then show ?thesis ..
next
  case True
  with assms obtain m' where
    "redraw max_value get ((- max_value) mod max_value)
       (ucast (fst (get g)) * ucast max_value) (snd (get g)) = Some (m', g')"
    by (auto simp: random_u64_limited_def case_prod_unfold Let_def
        split: if_splits option.splits)
  from redraw_Some_after_draws [OF this]
  obtain k where "g' = after_draws get k (snd (get g))" ..
  then have "g' = after_draws get (Suc k) g"
    by (simp only: after_draws_Suc_right)
  then show ?thesis ..
qed


lemma next_all_zero_fixed:
  "next \<lparr>state_member = \<lparr>s0 = 0, s1 = 0, s2 = 0, s3 = 0\<rparr>\<rparr> =
     (0, \<lparr>state_member = \<lparr>s0 = 0, s1 = 0, s2 = 0, s3 = 0\<rparr>\<rparr>)"
  by (simp add: next_closed_form)

lemma u64_limited_all_zero:
  assumes "u64_limited max_value e = Some (Inr (r, e'))"
  shows "all_zero (state e') \<longleftrightarrow> all_zero (state e)"
proof -
  from assms obtain k where "e' = after_draws call_op (Suc k) e"
    unfolding u64_limited_def by (blast dest: random_u64_limited_Inr_after_draws)
  moreover have "call_op = next" by (rule ext) (simp add: call_op_def)
  ultimately show ?thesis by (simp only: after_draws_next_all_zero)
qed

lemma engine_update:
  "(e :: Xoshiro256StarStarEngine)\<lparr>state_member := st\<rparr> = \<lparr>state_member = st\<rparr>"
  by (cases e) simp

lemma splitmix64_spec_mix:
  "splitmix64 s = (spec_mix (s + 0x9e3779b97f4a7c15), s + 0x9e3779b97f4a7c15)"
  by (simp add: splitmix64_def spec_mix_def Let_def)

lemma add_mixed_bits_closed:
  "add_mixed_bits s \<lparr>s0 = a, s1 = b, s2 = c, s3 = d\<rparr> =
     (s + 4 * 0x9e3779b97f4a7c15,
      \<lparr>s0 = a + spec_mix (s + 0x9e3779b97f4a7c15),
       s1 = b + spec_mix (s + 2 * 0x9e3779b97f4a7c15),
       s2 = c + spec_mix (s + 3 * 0x9e3779b97f4a7c15),
       s3 = d + spec_mix (s + 4 * 0x9e3779b97f4a7c15)\<rparr>)"
  by (simp add: add_mixed_bits_def splitmix64_spec_mix Let_def add.assoc)

section \<open>Properties of the bounded sampler\<close>

lemma unat_u64_less: "unat (x :: u64) < 2 ^ 64"
  using unsigned_less [of x] by simp

lemma unat_ucast_u128: "unat (ucast (x :: u64) :: u128) = unat x"
proof -
  have "unat x < 2 ^ 128"
    using unat_u64_less [of x] by simp
  then have "take_bit 128 (unat x) = unat x"
    by (rule take_bit_nat_eq_self)
  then show ?thesis by (simp add: unsigned_ucast_eq)
qed

lemma product_less: "unat (x :: u64) * unat (n :: u64) < 2 ^ 128"
proof -
  have "unat x * unat n < 2 ^ 64 * 2 ^ 64"
    using unat_u64_less [of x] unat_u64_less [of n] by (rule mult_strict_mono') simp_all
  then show ?thesis by simp
qed

lemma unat_product:
  "unat ((ucast (x :: u64) :: u128) * ucast (n :: u64)) = unat x * unat n"
proof -
  have "unat ((ucast x :: u128) * ucast n) = unat x * unat n mod 2 ^ 128"
    by (simp add: unat_word_ariths unat_of_nat unat_ucast_u128)
  with product_less [of x n] show ?thesis by simp
qed

lemma unat_product_low:
  "unat (ucast ((ucast (x :: u64) :: u128) * ucast (n :: u64)) :: u64) =
     unat x * unat n mod 2 ^ 64"
  by (simp add: unsigned_ucast_eq take_bit_eq_mod unat_product)

lemma unat_product_high:
  "unat (ucast (drop_bit 64 ((ucast (x :: u64) :: u128) * ucast (n :: u64))) :: u64) =
     unat x * unat n div 2 ^ 64"
proof -
  have "unat x * unat n < 2 ^ 64 * 2 ^ 64"
    using product_less [of x n] by simp
  then have small: "unat x * unat n div 2 ^ 64 < 2 ^ 64"
    by (simp add: less_mult_imp_div_less)
  have "unat (drop_bit 64 ((ucast x :: u128) * ucast n)) = drop_bit 64 (unat x * unat n)"
    by (simp only: unat_drop_bit_eq unat_product)
  then have "unat (drop_bit 64 ((ucast x :: u128) * ucast n)) = unat x * unat n div 2 ^ 64"
    by (simp only: drop_bit_eq_div)
  then have "unat (ucast (drop_bit 64 ((ucast x :: u128) * ucast n)) :: u64) =
      take_bit 64 (unat x * unat n div 2 ^ 64)"
    by (simp only: unsigned_ucast_eq) simp
  also have "\<dots> = unat x * unat n div 2 ^ 64"
    using small by (rule take_bit_nat_eq_self)
  finally show ?thesis .
qed

lemma product_high_less:
  assumes "0 < (n :: u64)"
  shows "unat (x :: u64) * unat n div 2 ^ 64 < unat n"
proof -
  have "0 < unat n" using assms by (simp add: unat_gt_0)
  with unat_u64_less [of x] have "unat x * unat n < 2 ^ 64 * unat n" by simp
  then show ?thesis by (simp add: less_mult_imp_div_less mult.commute)
qed

lemma unat_threshold:
  assumes "n \<noteq> (0 :: u64)"
  shows "unat ((- n) mod n) = (2 ^ 64 - unat n) mod unat n"
proof -
  have "0 < unat n" using assms by (simp add: unat_gt_0)
  with unat_sub_if_size [of 0 n] have "unat (- n) = 2 ^ 64 - unat n"
    by (simp add: word_size)
  then show ?thesis by (simp add: unat_mod)
qed


lemma accepted_iff:
  assumes "max_value \<noteq> 0"
  shows "accepted max_value x \<longleftrightarrow>
    \<not> (ucast ((ucast x :: u128) * ucast max_value) :: u64) < (- max_value) mod max_value"
  using assms
  by (simp add: accepted_def word_less_nat_alt unat_product_low unat_threshold not_less)

lemma threshold_less:
  assumes "max_value \<noteq> (0 :: u64)"
  shows "(- max_value) mod max_value < max_value"
  using assms by (simp add: word_mod_less_divisor word_neq_0_conv)

lemma redraw_accepts:
  assumes "\<not> (ucast m :: u64) < t"
  shows "redraw max_value get t m g = Some (m, g)"
  using assms by (subst redraw.simps) simp

lemma redraw_rejects:
  assumes "(ucast m :: u64) < t"
  shows "redraw max_value get t m g =
    redraw max_value get t (ucast (fst (get g)) * ucast max_value) (snd (get g))"
  using assms by (subst redraw.simps) (simp add: case_prod_unfold Let_def)

lemma redraw_until_accepted:
  assumes "max_value \<noteq> 0"
    and "(ucast m :: u64) < (- max_value) mod max_value"
    and "\<forall>i<n. \<not> accepted max_value (raw_word get g i)"
    and "accepted max_value (raw_word get g n)"
  shows "redraw max_value get ((- max_value) mod max_value) m g =
    Some (ucast (raw_word get g n) * ucast max_value, after_draws get (Suc n) g)"
  using assms(2-)
proof (induction n arbitrary: m g)
  case 0
  from "0.prems"(3) have "\<not> (ucast ((ucast (fst (get g)) :: u128) * ucast max_value) :: u64)
      < (- max_value) mod max_value"
    by (simp add: accepted_iff [OF assms(1)])
  then show ?case
    by (simp add: redraw_rejects [OF "0.prems"(1)] redraw_accepts after_draws_def)
next
  case (Suc n)
  from Suc.prems(2) have "\<not> accepted max_value (raw_word get g 0)" by blast
  then have rej: "(ucast ((ucast (fst (get g)) :: u128) * ucast max_value) :: u64)
      < (- max_value) mod max_value"
    by (simp add: accepted_iff [OF assms(1)])
  have "\<forall>i<n. \<not> accepted max_value (raw_word get (snd (get g)) i)"
    using Suc.prems(2) by (auto simp: raw_word_Suc [symmetric])
  moreover have "accepted max_value (raw_word get (snd (get g)) n)"
    using Suc.prems(3) by (simp add: raw_word_Suc)
  ultimately have "redraw max_value get ((- max_value) mod max_value)
      (ucast (fst (get g)) * ucast max_value) (snd (get g)) =
    Some (ucast (raw_word get (snd (get g)) n) * ucast max_value,
      after_draws get (Suc n) (snd (get g)))"
    using rej by (intro Suc.IH)
  then show ?case
    by (simp only: redraw_rejects [OF Suc.prems(1)] raw_word_Suc
        after_draws_Suc_right [of get "Suc n"])
qed

lemma random_u64_limited_first_accepted:
  assumes "0 < max_value"
    and "\<forall>i<n. \<not> accepted max_value (raw_word get g i)"
    and "accepted max_value (raw_word get g n)"
  shows "random_u64_limited max_value get g =
    Some (Inr (ucast (drop_bit 64 ((ucast (raw_word get g n) :: u128) * ucast max_value)),
      after_draws get (Suc n) g))"
proof -
  from assms(1) have nz: "max_value \<noteq> 0" by auto
  let ?m = "(ucast (fst (get g)) :: u128) * ucast max_value"
  let ?t = "(- max_value) mod max_value"
  show ?thesis
  proof (cases "(ucast ?m :: u64) < ?t")
    case True
    then have "\<not> accepted max_value (raw_word get g 0)"
      by (simp add: accepted_iff [OF nz])
    with assms(3) obtain k where n: "n = Suc k" by (cases n) auto
    have "\<forall>i<k. \<not> accepted max_value (raw_word get (snd (get g)) i)"
      using assms(2) n by (auto simp: raw_word_Suc [symmetric])
    moreover have "accepted max_value (raw_word get (snd (get g)) k)"
      using assms(3) n by (simp add: raw_word_Suc)
    ultimately have loop: "redraw max_value get ?t ?m (snd (get g)) =
      Some (ucast (raw_word get (snd (get g)) k) * ucast max_value,
        after_draws get (Suc k) (snd (get g)))"
      using True nz by (intro redraw_until_accepted)
    from True threshold_less [OF nz] have "(ucast ?m :: u64) < max_value" by simp
    with nz loop show ?thesis
      by (simp add: random_u64_limited_def case_prod_unfold Let_def n raw_word_Suc
          after_draws_Suc_right [of get "Suc k"])
  next
    case False
    then have acc: "accepted max_value (raw_word get g 0)"
      by (simp add: accepted_iff [OF nz])
    with assms(2) have n: "n = 0" by (cases n) auto
    from False have loop: "redraw max_value get ?t ?m (snd (get g)) = Some (?m, snd (get g))"
      by (rule redraw_accepts)
    show ?thesis
      using nz loop
      by (simp add: random_u64_limited_def case_prod_unfold Let_def n after_draws_def)
  qed
qed

lemma redraw_all_zero_engine:
  "redraw 3 next 1 0 \<lparr>state_member = \<lparr>s0 = 0, s1 = 0, s2 = 0, s3 = 0\<rparr>\<rparr> = None"
proof (cases "redraw 3 next 1 0 \<lparr>state_member = \<lparr>s0 = 0, s1 = 0, s2 = 0, s3 = 0\<rparr>\<rparr>")
  case None
  then show ?thesis .
next
  case (Some y)
  have False
  proof (rule redraw.raw_induct
      [where P = "\<lambda>max_value get t m g y. \<not> (max_value = 3 \<and> get = next \<and> t = 1 \<and> m = 0
          \<and> g = \<lparr>state_member = \<lparr>s0 = 0, s1 = 0, s2 = 0, s3 = 0\<rparr>\<rparr>)", OF _ Some, THEN notE])
    fix redraw' :: "u64 \<Rightarrow> (Xoshiro256StarStarEngine \<Rightarrow> u64 \<times> Xoshiro256StarStarEngine)
        \<Rightarrow> u64 \<Rightarrow> u128 \<Rightarrow> Xoshiro256StarStarEngine
        \<Rightarrow> (u128 \<times> Xoshiro256StarStarEngine) option"
      and max_value get t m g y
    assume IH: "\<And>max_value get t m g y. redraw' max_value get t m g = Some y \<Longrightarrow>
        \<not> (max_value = 3 \<and> get = next \<and> t = 1 \<and> m = 0
          \<and> g = \<lparr>state_member = \<lparr>s0 = 0, s1 = 0, s2 = 0, s3 = 0\<rparr>\<rparr>)"
      and body: "(if (ucast m :: u64) < t
          then (let (x, g') = get g in redraw' max_value get t (ucast x * ucast max_value) g')
          else Some (m, g)) = Some y"
    show "\<not> (max_value = 3 \<and> get = next \<and> t = 1 \<and> m = 0
          \<and> g = \<lparr>state_member = \<lparr>s0 = 0, s1 = 0, s2 = 0, s3 = 0\<rparr>\<rparr>)"
    proof
      assume eq: "max_value = 3 \<and> get = next \<and> t = 1 \<and> m = 0
          \<and> g = \<lparr>state_member = \<lparr>s0 = 0, s1 = 0, s2 = 0, s3 = 0\<rparr>\<rparr>"
      with body have "redraw' 3 next 1 0 \<lparr>state_member = \<lparr>s0 = 0, s1 = 0, s2 = 0, s3 = 0\<rparr>\<rparr> = Some y"
        by (simp add: next_all_zero_fixed)
      from IH [OF this] show False by simp
    qed
  qed simp
  then show ?thesis ..
qed

lemma redraw_never_accepted:
  assumes nz: "max_value \<noteq> 0"
    and rej: "(ucast m :: u64) < (- max_value) mod max_value"
    and never: "\<forall>n. \<not> accepted max_value (raw_word get g n)"
  shows "redraw max_value get ((- max_value) mod max_value) m g = None"
proof (cases "redraw max_value get ((- max_value) mod max_value) m g")
  case None
  then show ?thesis .
next
  case (Some y)
  have "\<not> (max_value \<noteq> 0 \<and> (- max_value) mod max_value = (- max_value) mod max_value
      \<and> (ucast m :: u64) < (- max_value) mod max_value
      \<and> (\<forall>n. \<not> accepted max_value (raw_word get g n)))"
  proof (rule redraw.raw_induct
      [where P = "\<lambda>max_value get t m g y. \<not> (max_value \<noteq> 0 \<and> t = (- max_value) mod max_value
          \<and> (ucast m :: u64) < t \<and> (\<forall>n. \<not> accepted max_value (raw_word get g n)))",
        OF _ Some])
    fix redraw' :: "u64 \<Rightarrow> ('a \<Rightarrow> u64 \<times> 'a) \<Rightarrow> u64 \<Rightarrow> u128 \<Rightarrow> 'a \<Rightarrow> (u128 \<times> 'a) option"
      and max_value get t m g y
    assume IH: "\<And>max_value get t m g y. redraw' max_value get t m g = Some y \<Longrightarrow>
        \<not> (max_value \<noteq> 0 \<and> t = (- max_value) mod max_value
          \<and> (ucast m :: u64) < t \<and> (\<forall>n. \<not> accepted max_value (raw_word get g n)))"
      and body: "(if (ucast m :: u64) < t
          then (let (x, g') = get g in redraw' max_value get t (ucast x * ucast max_value) g')
          else Some (m, g)) = Some y"
    show "\<not> (max_value \<noteq> 0 \<and> t = (- max_value) mod max_value
          \<and> (ucast m :: u64) < t \<and> (\<forall>n. \<not> accepted max_value (raw_word get g n)))"
    proof
      assume a: "max_value \<noteq> 0 \<and> t = (- max_value) mod max_value
          \<and> (ucast m :: u64) < t \<and> (\<forall>n. \<not> accepted max_value (raw_word get g n))"
      then have nz: "max_value \<noteq> 0" and t: "t = (- max_value) mod max_value"
        and rej: "(ucast m :: u64) < t"
        and never: "\<forall>n. \<not> accepted max_value (raw_word get g n)"
        by blast+
      from body rej have call:
        "redraw' max_value get t (ucast (fst (get g)) * ucast max_value) (snd (get g)) = Some y"
        by (simp add: case_prod_unfold Let_def)
      from never have "\<not> accepted max_value (raw_word get g 0)" by blast
      then have rej': "(ucast ((ucast (fst (get g)) :: u128) * ucast max_value) :: u64) < t"
        by (simp add: accepted_iff [OF nz] t)
      from never have "\<forall>n. \<not> accepted max_value (raw_word get g (Suc n))" by blast
      then have never': "\<forall>n. \<not> accepted max_value (raw_word get (snd (get g)) n)"
        by (simp add: raw_word_Suc)
      from IH [OF call] nz t rej' never' show False by blast
    qed
  qed
  with nz rej never show ?thesis by blast
qed

lemma random_u64_limited_never_accepted:
  assumes "0 < max_value"
    and never: "\<forall>n. \<not> accepted max_value (raw_word get g n)"
  shows "random_u64_limited max_value get g = None"
proof -
  from assms(1) have nz: "max_value \<noteq> 0" by auto
  let ?m = "(ucast (fst (get g)) :: u128) * ucast max_value"
  let ?t = "(- max_value) mod max_value"
  from never have "\<not> accepted max_value (raw_word get g 0)" by blast
  then have rej: "(ucast ?m :: u64) < ?t"
    by (simp add: accepted_iff [OF nz])
  from never have "\<forall>n. \<not> accepted max_value (raw_word get g (Suc n))" by blast
  then have "\<forall>n. \<not> accepted max_value (raw_word get (snd (get g)) n)"
    by (simp add: raw_word_Suc)
  with nz rej have loop: "redraw max_value get ?t ?m (snd (get g)) = None"
    by (rule redraw_never_accepted)
  from rej threshold_less [OF nz] have "(ucast ?m :: u64) < max_value" by simp
  with nz loop show ?thesis
    by (simp add: random_u64_limited_def case_prod_unfold Let_def)
qed

lemma random_u64_limited_Some_first_accepted:
  assumes pos: "0 < max_value"
    and some: "random_u64_limited max_value get g = Some y"
  shows "\<exists>n r. (\<forall>i<n. \<not> accepted max_value (raw_word get g i))
      \<and> accepted max_value (raw_word get g n)
      \<and> y = Inr (r, after_draws get (Suc n) g)
      \<and> unat r = unat (raw_word get g n) * unat max_value div 2 ^ 64
      \<and> r < max_value"
proof -
  have "\<exists>n. accepted max_value (raw_word get g n)"
  proof (rule ccontr)
    assume "\<not> (\<exists>n. accepted max_value (raw_word get g n))"
    then have "\<forall>n. \<not> accepted max_value (raw_word get g n)" by blast
    from random_u64_limited_never_accepted [OF pos this] some show False by simp
  qed
  then obtain n0 where n0: "accepted max_value (raw_word get g n0)" ..
  define n where "n = (LEAST n. accepted max_value (raw_word get g n))"
  have acc: "accepted max_value (raw_word get g n)"
    unfolding n_def using n0 by (rule LeastI)
  have before: "\<forall>i<n. \<not> accepted max_value (raw_word get g i)"
    unfolding n_def using not_less_Least by blast
  let ?r = "ucast (drop_bit 64 ((ucast (raw_word get g n) :: u128) * ucast max_value)) :: u64"
  have res: "random_u64_limited max_value get g = Some (Inr (?r, after_draws get (Suc n) g))"
    using pos before acc by (rule random_u64_limited_first_accepted)
  have u: "unat ?r = unat (raw_word get g n) * unat max_value div 2 ^ 64"
    by (rule unat_product_high)
  have less: "?r < max_value"
    using product_high_less [OF pos, of "raw_word get g n"]
    by (simp only: word_less_nat_alt u)
  from res some have "y = Inr (?r, after_draws get (Suc n) g)" by simp
  with before acc u less show ?thesis by blast
qed

lemma raw_word_all_zero_engine:
  "raw_word next \<lparr>state_member = \<lparr>s0 = 0, s1 = 0, s2 = 0, s3 = 0\<rparr>\<rparr> n = 0"
proof -
  have "after_draws next n \<lparr>state_member = \<lparr>s0 = 0, s1 = 0, s2 = 0, s3 = 0\<rparr>\<rparr> =
      \<lparr>state_member = \<lparr>s0 = 0, s1 = 0, s2 = 0, s3 = 0\<rparr>\<rparr>"
    by (induction n) (simp_all add: after_draws_Suc next_all_zero_fixed)
  then show ?thesis by (simp add: raw_word_def next_all_zero_fixed)
qed

text \<open>A run used as a concrete example: two draws from the state \<open>[1, 0, 0, 0]\<close>.\<close>

lemma next_example:
  "next \<lparr>state_member = \<lparr>s0 = 1, s1 = 0, s2 = 0, s3 = 0\<rparr>\<rparr> =
     (0, \<lparr>state_member = \<lparr>s0 = 1, s1 = 1, s2 = 1, s3 = 0\<rparr>\<rparr>)"
  "next \<lparr>state_member = \<lparr>s0 = 1, s1 = 1, s2 = 1, s3 = 0\<rparr>\<rparr> =
     (5760, \<lparr>state_member = \<lparr>s0 = 0, s1 = 1, s2 = 131072, s3 = 35184372088832\<rparr>\<rparr>)"
  by (simp_all add: next_def rotl_def)

lemma bits_b_example:
  "bits_b 8 \<lparr>state_member = \<lparr>s0 = 1, s1 = 0, s2 = 0, s3 = 0\<rparr>\<rparr> =
     Inr (0, \<lparr>state_member = \<lparr>s0 = 1, s1 = 1, s2 = 1, s3 = 0\<rparr>\<rparr>)"
  by (simp add: bits_b_def bits_def call_op_def next_example)

lemma u64_limited_example:
  "u64_limited 3 \<lparr>state_member = \<lparr>s0 = 1, s1 = 0, s2 = 0, s3 = 0\<rparr>\<rparr> =
     Some (Inr (0, \<lparr>state_member = \<lparr>s0 = 0, s1 = 1, s2 = 131072, s3 = 35184372088832\<rparr>\<rparr>))"
proof -
  have t: "(- 3 :: u64) mod 3 = 1" by simp
  have "redraw 3 next 1 0 \<lparr>state_member = \<lparr>s0 = 1, s1 = 1, s2 = 1, s3 = 0\<rparr>\<rparr> =
      redraw 3 next 1 17280 \<lparr>state_member = \<lparr>s0 = 0, s1 = 1, s2 = 131072, s3 = 35184372088832\<rparr>\<rparr>"
    by (subst redraw_rejects) (simp_all add: next_example)
  also have "\<dots> = Some (17280, \<lparr>state_member = \<lparr>s0 = 0, s1 = 1, s2 = 131072, s3 = 35184372088832\<rparr>\<rparr>)"
    by (rule redraw_accepts) simp
  finally show ?thesis
    by (simp add: u64_limited_def call_op_def [abs_def] random_u64_limited_def next_example t)
qed

section \<open>The claims\<close>

text \<open>
  C1: for every state \<open>[s0, s1, s2, s3] = [a, b, c, d]\<close>, one call of \<open>next()\<close> returns
  \<open>rotate_left(s1 * 5, 7) * 9\<close> of the state before the transition, with the arithmetic
  modulo \<open>2 ^ 64\<close>, and leaves the state that the assignments \<open>t = s1 << 17; s2 ^= s0;
  s3 ^= s1; s1 ^= s2; s0 ^= s3; s2 ^= t; s3 = rotate_left(s3, 45)\<close> give when made in
  this order: \<open>s1\<close> receives the already updated \<open>s2\<close>, and \<open>s0\<close> the already updated
  \<open>s3\<close>.
\<close>

theorem next_output_and_transition:
  "next \<lparr>state_member = \<lparr>s0 = a, s1 = b, s2 = c, s3 = d\<rparr>\<rparr> =
     (word_rotl 7 (b * 5) * 9,
      \<lparr>state_member = \<lparr>s0 = a XOR (d XOR b), s1 = b XOR (c XOR a),
         s2 = (c XOR a) XOR push_bit 17 b, s3 = word_rotl 45 (d XOR b)\<rparr>\<rparr>)
   \<and> unat (b * 5) = unat b * 5 mod 2 ^ 64
   \<and> unat (fst (next \<lparr>state_member = \<lparr>s0 = a, s1 = b, s2 = c, s3 = d\<rparr>\<rparr>)) =
       unat (word_rotl 7 (b * 5)) * 9 mod 2 ^ 64"
proof (intro conjI)
  show "next \<lparr>state_member = \<lparr>s0 = a, s1 = b, s2 = c, s3 = d\<rparr>\<rparr> =
     (word_rotl 7 (b * 5) * 9,
      \<lparr>state_member = \<lparr>s0 = a XOR (d XOR b), s1 = b XOR (c XOR a),
         s2 = (c XOR a) XOR push_bit 17 b, s3 = word_rotl 45 (d XOR b)\<rparr>\<rparr>)"
    by (rule next_closed_form)
  show "unat (b * 5) = unat b * 5 mod 2 ^ 64"
    by (simp add: unat_word_ariths)
  show "unat (fst (next \<lparr>state_member = \<lparr>s0 = a, s1 = b, s2 = c, s3 = d\<rparr>\<rparr>)) =
       unat (word_rotl 7 (b * 5)) * 9 mod 2 ^ 64"
    by (simp add: next_closed_form unat_word_ariths)
qed

text \<open>
  C2: \<open>splitmix64\<close> adds \<open>0x9e3779b97f4a7c15\<close> to the word it refers to and returns the
  mix of the new value (two rounds of xor-shift and multiplication by an odd constant,
  then a last xor-shift). For every 64-bit \<open>v\<close>, \<open>seed(v)\<close> starts from the four fixed
  constants, adds to the four words in order the mixer's outputs for \<open>v\<close> advanced once,
  twice, three and four times, sets the second word to \<open>0x1615CA18E55EE70C\<close> if all four
  words are zero, and then discards 256 outputs of the transition.
\<close>

theorem seed_value_spec:
  "splitmix64 s = (spec_mix (s + 0x9e3779b97f4a7c15), s + 0x9e3779b97f4a7c15)
   \<and> odd (0x9e3779b97f4a7c15 :: u64) \<and> odd (0xbf58476d1ce4e5b9 :: u64)
   \<and> odd (0x94d049bb133111eb :: u64)
   \<and> seed v e = discard 256 \<lparr>state_member = spec_seeded_state v\<rparr>
   \<and> discard 256 e' = after_draws next 256 e'"
proof (intro conjI)
  show "splitmix64 s = (spec_mix (s + 0x9e3779b97f4a7c15), s + 0x9e3779b97f4a7c15)"
    by (rule splitmix64_spec_mix)
  show "seed v e = discard 256 \<lparr>state_member = spec_seeded_state v\<rparr>"
    by (simp add: seed_def add_mixed_bits_closed spec_seeded_state_def all_zero_def Let_def
        engine_update)
  show "discard 256 e' = after_draws next 256 e'"
    by (simp add: discard_after_draws)
qed simp_all

text \<open>
  C3, as amended: for every \<open>max_value > 0\<close> and every callback, if the word of index \<open>n\<close>
  is the first accepted one, then \<open>random_u64_limited\<close> returns after \<open>n + 1\<close> draws the
  high 64 bits of the 128-bit product of that word and \<open>max_value\<close>, a value below
  \<open>max_value\<close>. A word whose low product half is at least \<open>max_value\<close> is accepted. For
  \<open>max_value = 1\<close> the call returns 0 after one draw, whatever the word. \<open>Random::u64\<close>
  is \<open>random_u64_limited\<close> drawing from the engine. When no word of the sequence is
  accepted the call does not return; so whatever the call returns is the high half for
  the first accepted word, and is below \<open>max_value\<close>.
\<close>

theorem random_u64_limited_returns:
  "(0 < max_value \<and> (\<forall>i<n. \<not> accepted max_value (raw_word get g i))
      \<and> accepted max_value (raw_word get g n) \<longrightarrow>
      (\<exists>r. random_u64_limited max_value get g = Some (Inr (r, after_draws get (Suc n) g))
         \<and> unat r = unat (raw_word get g n) * unat max_value div 2 ^ 64
         \<and> r < max_value))
   \<and> (0 < max_value \<and> unat max_value \<le> unat x * unat max_value mod 2 ^ 64 \<longrightarrow>
        accepted max_value x)
   \<and> random_u64_limited 1 get g = Some (Inr (0, snd (get g)))
   \<and> u64_limited max_value e = random_u64_limited max_value next e
   \<and> (0 < max_value \<and> (\<forall>k. \<not> accepted max_value (raw_word get g k)) \<longrightarrow>
        random_u64_limited max_value get g = None)
   \<and> (0 < max_value \<and> random_u64_limited max_value get g = Some y \<longrightarrow>
        (\<exists>k r. (\<forall>i<k. \<not> accepted max_value (raw_word get g i))
           \<and> accepted max_value (raw_word get g k)
           \<and> y = Inr (r, after_draws get (Suc k) g)
           \<and> unat r = unat (raw_word get g k) * unat max_value div 2 ^ 64
           \<and> r < max_value))"
proof (intro conjI impI)
  assume a: "0 < max_value \<and> (\<forall>i<n. \<not> accepted max_value (raw_word get g i))
      \<and> accepted max_value (raw_word get g n)"
  let ?r = "ucast (drop_bit 64 ((ucast (raw_word get g n) :: u128) * ucast max_value)) :: u64"
  from a have "random_u64_limited max_value get g = Some (Inr (?r, after_draws get (Suc n) g))"
    by (intro random_u64_limited_first_accepted) simp_all
  moreover have u: "unat ?r = unat (raw_word get g n) * unat max_value div 2 ^ 64"
    by (rule unat_product_high)
  moreover have "?r < max_value"
    using a product_high_less [of max_value "raw_word get g n"]
    by (simp only: word_less_nat_alt u)
  ultimately show "\<exists>r. random_u64_limited max_value get g =
        Some (Inr (r, after_draws get (Suc n) g))
      \<and> unat r = unat (raw_word get g n) * unat max_value div 2 ^ 64
      \<and> r < max_value"
    by blast
next
  assume b: "0 < max_value \<and> unat max_value \<le> unat x * unat max_value mod 2 ^ 64"
  then have "max_value \<noteq> 0" by auto
  then have "0 < unat max_value" by (simp add: unat_gt_0)
  then have "(2 ^ 64 - unat max_value) mod unat max_value < unat max_value" by simp
  with b show "accepted max_value x" by (simp add: accepted_def)
next
  have "unat (ucast ((ucast (fst (get g)) :: u128) * ucast (1 :: u64)) :: u64) =
      unat (fst (get g))"
    using unat_u64_less [of "fst (get g)"] by (simp only: unat_product_low) simp
  then have "(ucast ((ucast (fst (get g)) :: u128) * ucast (1 :: u64)) :: u64) = fst (get g)"
    by (simp only: word_unat_eq_iff)
  moreover have "unat (ucast (drop_bit 64 ((ucast (fst (get g)) :: u128) * ucast (1 :: u64))) :: u64) = 0"
    using unat_u64_less [of "fst (get g)"] by (simp only: unat_product_high) simp
  then have "(ucast (drop_bit 64 ((ucast (fst (get g)) :: u128) * ucast (1 :: u64))) :: u64) = 0"
    by (simp only: unat_eq_0)
  moreover have "redraw 1 get 0 m (snd (get g)) = Some (m, snd (get g))" for m
    by (rule redraw_accepts) simp
  ultimately show "random_u64_limited 1 get g = Some (Inr (0, snd (get g)))"
    by (simp add: random_u64_limited_def case_prod_unfold Let_def)
next
  show "u64_limited max_value e = random_u64_limited max_value next e"
    by (simp add: u64_limited_def call_op_def [abs_def])
next
  assume "0 < max_value \<and> (\<forall>k. \<not> accepted max_value (raw_word get g k))"
  then show "random_u64_limited max_value get g = None"
    by (intro random_u64_limited_never_accepted) simp_all
next
  assume "0 < max_value \<and> random_u64_limited max_value get g = Some y"
  then have "0 < max_value" and "random_u64_limited max_value get g = Some y" by simp_all
  then show "\<exists>k r. (\<forall>i<k. \<not> accepted max_value (raw_word get g i))
      \<and> accepted max_value (raw_word get g k)
      \<and> y = Inr (r, after_draws get (Suc k) g)
      \<and> unat r = unat (raw_word get g k) * unat max_value div 2 ^ 64
      \<and> r < max_value"
    by (rule random_u64_limited_Some_first_accepted)
qed

theorem random_u64_limited_returns_witness:
  "(0 :: u64) < 3
   \<and> \<not> accepted 3 (raw_word next \<lparr>state_member = \<lparr>s0 = 1, s1 = 0, s2 = 0, s3 = 0\<rparr>\<rparr> 0)
   \<and> unat (3 :: u64) \<le> unat (5760 :: u64) * unat (3 :: u64) mod 2 ^ 64
   \<and> accepted 3 (raw_word next \<lparr>state_member = \<lparr>s0 = 1, s1 = 0, s2 = 0, s3 = 0\<rparr>\<rparr> 1)
   \<and> u64_limited 3 \<lparr>state_member = \<lparr>s0 = 1, s1 = 0, s2 = 0, s3 = 0\<rparr>\<rparr> =
       Some (Inr (0, \<lparr>state_member = \<lparr>s0 = 0, s1 = 1, s2 = 131072, s3 = 35184372088832\<rparr>\<rparr>))
   \<and> (\<exists>k r. Inr (0 :: u64, \<lparr>state_member = \<lparr>s0 = 0, s1 = 1, s2 = 131072, s3 = 35184372088832\<rparr>\<rparr>) =
          (Inr (r, after_draws next (Suc k) \<lparr>state_member = \<lparr>s0 = 1, s1 = 0, s2 = 0, s3 = 0\<rparr>\<rparr>)
             :: error + u64 \<times> Xoshiro256StarStarEngine)
        \<and> r < 3)
   \<and> (\<forall>k. \<not> accepted 3 (raw_word next \<lparr>state_member = \<lparr>s0 = 0, s1 = 0, s2 = 0, s3 = 0\<rparr>\<rparr> k))
   \<and> random_u64_limited 3 next \<lparr>state_member = \<lparr>s0 = 0, s1 = 0, s2 = 0, s3 = 0\<rparr>\<rparr> = None"
proof -
  let ?e = "\<lparr>state_member = \<lparr>s0 = 1, s1 = 0, s2 = 0, s3 = 0\<rparr>\<rparr>"
  let ?e2 = "\<lparr>state_member = \<lparr>s0 = 0, s1 = 1, s2 = 131072, s3 = 35184372088832\<rparr>\<rparr>"
  let ?z = "\<lparr>state_member = \<lparr>s0 = 0, s1 = 0, s2 = 0, s3 = 0\<rparr>\<rparr>"
  note inst = random_u64_limited_returns
    [where max_value = 3 and n = "Suc 0" and get = "next" and g = ?e and x = 5760 and e = ?e
      and y = "Inr (0, ?e2)"]
  note inst_zero = random_u64_limited_returns [where max_value = 3 and get = "next" and g = ?z]
  have w1: "raw_word next ?e (Suc 0) = 5760"
    by (simp add: raw_word_Suc next_example)
  have e2: "after_draws next (Suc (Suc 0)) ?e = ?e2"
    by (simp add: after_draws_Suc next_example)
  have h0: "(0 :: u64) < 3" by simp
  have h1: "\<forall>i<Suc 0. \<not> accepted 3 (raw_word next ?e i)"
    by (simp add: next_example accepted_def)
  have h3: "unat (3 :: u64) \<le> unat (5760 :: u64) * unat (3 :: u64) mod 2 ^ 64" by simp
  from inst h0 h3 have "accepted 3 5760" by blast
  then have h2: "accepted 3 (raw_word next ?e (Suc 0))" by (simp only: w1)
  from inst h0 h1 h2
  obtain r where
    "random_u64_limited 3 next ?e = Some (Inr (r, after_draws next (Suc (Suc 0)) ?e))"
    and "unat r = unat (raw_word next ?e (Suc 0)) * unat (3 :: u64) div 2 ^ 64"
    by blast
  moreover from this(2) have "r = 0"
    by (simp add: w1 unat_eq_0)
  ultimately have ret: "random_u64_limited 3 next ?e = Some (Inr (0, ?e2))"
    by (simp add: e2)
  moreover from inst have "u64_limited 3 ?e = random_u64_limited 3 next ?e" by blast
  ultimately have h4: "u64_limited 3 ?e = Some (Inr (0, ?e2))" by simp
  from inst h0 ret have h5: "\<exists>k r. (Inr (0, ?e2) :: error + u64 \<times> Xoshiro256StarStarEngine) =
      Inr (r, after_draws next (Suc k) ?e) \<and> r < 3"
    by blast
  have h6: "\<forall>k. \<not> accepted 3 (raw_word next ?z k)"
    by (simp add: raw_word_all_zero_engine accepted_def)
  from inst_zero h0 h6 have h7: "random_u64_limited 3 next ?z = None" by blast
  from h0 h1 h2 h3 h4 h5 h6 h7 show ?thesis by simp
qed

text \<open>
  C3 as stated fails: from the all-zero state every raw word is 0, no word is accepted
  for \<open>max_value = 3\<close> (the threshold is 1), and \<open>u64(3)\<close> never returns.
\<close>

theorem u64_limited_never_returns_counterexample:
  "u64_limited 3 \<lparr>state_member = \<lparr>s0 = 0, s1 = 0, s2 = 0, s3 = 0\<rparr>\<rparr> = None"
proof -
  have "(- 3 :: u64) mod 3 = 1" by simp
  then show ?thesis
    by (simp add: u64_limited_def call_op_def [abs_def] random_u64_limited_def
        next_all_zero_fixed redraw_all_zero_engine)
qed

text \<open>
  C4: for every single seed value and for every seed sequence, the state of the engine
  after \<open>seed()\<close> has run (all-zero check, substitution and the 256-step burn-in
  included) is not the all-zero state.
\<close>

theorem seed_state_not_all_zero:
  "\<not> all_zero (state (seed v e)) \<and> \<not> all_zero (state (seed_seq ss e))"
proof
  have fixed: "\<not> all_zero (if s0 st = 0 \<and> s1 st = 0 \<and> s2 st = 0 \<and> s3 st = 0
                then st\<lparr>s1 := 0x1615CA18E55EE70C\<rparr> else st)" for st
    by (simp add: all_zero_def)
  show "\<not> all_zero (state (seed v e))"
    unfolding seed_def Let_def case_prod_unfold discard_all_zero
    using fixed by (simp add: state_def)
  show "\<not> all_zero (state (seed_seq ss e))"
    unfolding seed_seq_def Let_def discard_all_zero
    using fixed by (simp add: state_def)
qed

text \<open>
  C5: \<open>discard(n)\<close> applies the transition \<open>next()\<close> exactly \<open>n\<close> times to the state;
  so \<open>discard(100)\<close> followed by \<open>next()\<close> returns the last of the outputs of 101
  calls of \<open>next()\<close> from the same state.
\<close>

theorem discard_applies_next:
  "discard z e = after_draws next (unat z) e
   \<and> fst (next (discard 100 e)) = last (next_outputs 101 e)"
proof
  show "discard z e = after_draws next (unat z) e"
    by (rule discard_after_draws)
  have "last (next_outputs (Suc 100) e) = fst (next (after_draws next 100 e))"
    by (rule last_next_outputs)
  moreover have "discard 100 e = after_draws next 100 e"
    by (simp add: discard_after_draws)
  ultimately show "fst (next (discard 100 e)) = last (next_outputs 101 e)"
    by simp
qed

text \<open>
  C6, as amended: for every \<open>b\<close> with \<open>1 \<le> b \<le> 64\<close>, \<open>bits(b)\<close> returns the top \<open>b\<close> bits
  of the word drawn by one \<open>next()\<close>, computed as \<open>raw >> (64 - b)\<close>, a value below
  \<open>2 ^ b\<close>.
\<close>

theorem bits_b_top_bits:
  assumes "1 \<le> b" and "b \<le> 64"
  shows "bits_b b e = Inr (drop_bit (nat (64 - b)) (fst (next e)), snd (next e))
    \<and> unat (drop_bit (nat (64 - b)) (fst (next e))) = unat (fst (next e)) div 2 ^ nat (64 - b)
    \<and> unat (drop_bit (nat (64 - b)) (fst (next e))) < 2 ^ nat b"
proof (intro conjI)
  show "bits_b b e = Inr (drop_bit (nat (64 - b)) (fst (next e)), snd (next e))"
    using assms by (simp add: bits_b_def bits_def call_op_def case_prod_unfold Let_def)
  show div: "unat (drop_bit (nat (64 - b)) (fst (next e))) =
      unat (fst (next e)) div 2 ^ nat (64 - b)"
    by (simp only: unat_drop_bit_eq) (simp only: drop_bit_eq_div)
  have "nat (64 - b) + nat b = 64" using assms by simp
  then have "(2 :: nat) ^ 64 = 2 ^ nat (64 - b) * 2 ^ nat b"
    by (simp only: power_add [symmetric])
  with unat_u64_less [of "fst (next e)"]
  have "unat (fst (next e)) < 2 ^ nat (64 - b) * 2 ^ nat b" by simp
  then have "unat (fst (next e)) div 2 ^ nat (64 - b) < 2 ^ nat b"
    by (simp add: less_mult_imp_div_less mult.commute)
  with div show "unat (drop_bit (nat (64 - b)) (fst (next e))) < 2 ^ nat b" by simp
qed

theorem bits_b_top_bits_witness:
  "(1 :: int) \<le> 8 \<and> (8 :: int) \<le> 64
   \<and> bits_b 8 \<lparr>state_member = \<lparr>s0 = 1, s1 = 0x0123456789ABCDEF, s2 = 3, s3 = 4\<rparr>\<rparr> =
       Inr (153, \<lparr>state_member = \<lparr>s0 = 81985529216486890, s1 = 81985529216486893,
         s2 = 10002234564411260930, s3 = 8772273358678847797\<rparr>\<rparr>)
   \<and> unat (153 :: u64) < 2 ^ 8"
proof -
  let ?e = "\<lparr>state_member = \<lparr>s0 = 1, s1 = 0x0123456789ABCDEF, s2 = 3, s3 = 4\<rparr>\<rparr>"
  have n: "next ?e = (11068046444225724818,
      \<lparr>state_member = \<lparr>s0 = 81985529216486890, s1 = 81985529216486893,
         s2 = 10002234564411260930, s3 = 8772273358678847797\<rparr>\<rparr>)"
    by (simp add: next_def rotl_def)
  have h1: "(1 :: int) \<le> 8" and h2: "(8 :: int) \<le> 64" by simp_all
  from bits_b_top_bits [OF h1 h2, of ?e] show ?thesis
    by (simp add: n)
qed

text \<open>
  C6 as stated fails at \<open>b = 0\<close>: the shift amount is 64, the width of the operand,
  and such a shift is undefined.
\<close>

theorem bits_b_zero_counterexample:
  "bits_b 0 \<lparr>state_member = \<lparr>s0 = 1, s1 = 2, s2 = 3, s3 = 4\<rparr>\<rparr> = Inl UndefinedShift"
  by (simp add: bits_b_def case_prod_unfold)

text \<open>
  C7: \<open>set_state(state())\<close>, writing back the state just read, leaves the engine as it
  was, and so leaves the outputs of any number of following calls of \<open>next()\<close>
  unchanged.
\<close>

theorem set_state_state_roundtrip:
  "set_state (state e) e = e
   \<and> next_outputs n (set_state (state e) e) = next_outputs n e"
  by (simp add: set_state_def state_def)

text \<open>
  C9: \<open>u64(0)\<close>, that is \<open>random_u64_limited\<close> with \<open>max_value = 0\<close>, returns 0 after
  exactly one draw, whatever the word drawn: the remainder by \<open>max_value\<close> is not
  evaluated, so no division by zero is reached.
\<close>

theorem u64_limited_zero_bound:
  "random_u64_limited 0 get g = Some (Inr (0, snd (get g)))
   \<and> u64_limited 0 e = Some (Inr (0, snd (next e)))"
  by (simp add: u64_limited_def random_u64_limited_def case_prod_unfold call_op_def)

text \<open>
  C10: a state that is not all-zero stays not all-zero under \<open>next()\<close>, under
  \<open>discard(n)\<close> for every \<open>n\<close> and under every call of the distribution layer (for
  \<open>bits(b)\<close> and \<open>u64(max_value)\<close>: whenever the call returns a value); the all-zero
  state is a fixed point of \<open>next()\<close>.
\<close>

theorem next_preserves_not_all_zero:
  assumes "\<not> all_zero (state e)"
  shows "\<not> all_zero (state (snd (next e)))
    \<and> (\<forall>z. \<not> all_zero (state (discard z e)))
    \<and> \<not> all_zero (state (snd (bits e)))
    \<and> (\<forall>b r e'. bits_b b e = Inr (r, e') \<longrightarrow> \<not> all_zero (state e'))
    \<and> \<not> all_zero (state (snd (u64 e)))
    \<and> (\<forall>max_value r e'. u64_limited max_value e = Some (Inr (r, e')) \<longrightarrow>
          \<not> all_zero (state e'))
    \<and> \<not> all_zero (state (snd (u32 e)))
    \<and> \<not> all_zero (state (snd (u32_pair e)))
    \<and> \<not> all_zero (state (snd (f52 conv52 e)))
    \<and> \<not> all_zero (state (snd (f53 conv53 e)))
    \<and> next \<lparr>state_member = \<lparr>s0 = 0, s1 = 0, s2 = 0, s3 = 0\<rparr>\<rparr> =
          (0, \<lparr>state_member = \<lparr>s0 = 0, s1 = 0, s2 = 0, s3 = 0\<rparr>\<rparr>)"
proof -
  have step: "\<not> all_zero (state (snd (next e)))"
    using assms by (simp add: next_all_zero_iff)
  have bits: "snd (bits e) = snd (next e)"
    by (simp add: bits_def call_op_def)
  have bits_b: "\<not> all_zero (state e')" if "bits_b b e = Inr (r, e')" for b r e'
  proof -
    from that have "e' = snd (bits e)"
      by (auto simp: bits_b_def case_prod_unfold Let_def split: if_splits)
    with step bits show ?thesis by simp
  qed
  have limited: "\<not> all_zero (state e')"
    if "u64_limited max_value e = Some (Inr (r, e'))" for max_value r e'
    using assms u64_limited_all_zero [OF that] by simp
  show ?thesis
  proof (intro conjI allI impI)
    show "\<not> all_zero (state (snd (next e)))" by (rule step)
    show "\<not> all_zero (state (discard z e))" for z
      using assms by (simp add: discard_all_zero)
    show "\<not> all_zero (state (snd (bits e)))" using step bits by simp
    show "\<not> all_zero (state e')" if "bits_b b e = Inr (r, e')" for b r e'
      using that by (rule bits_b)
    show "\<not> all_zero (state (snd (u64 e)))" using step bits by (simp add: u64_def)
    show "\<not> all_zero (state e')"
      if "u64_limited max_value e = Some (Inr (r, e'))" for max_value r e'
      using that by (rule limited)
    show "\<not> all_zero (state (snd (u32 e)))"
      using step bits by (simp add: u32_def case_prod_unfold)
    show "\<not> all_zero (state (snd (u32_pair e)))"
      using step bits by (simp add: u32_pair_def case_prod_unfold)
    show "\<not> all_zero (state (snd (f52 conv52 e)))"
      using step bits by (simp add: f52_def case_prod_unfold)
    show "\<not> all_zero (state (snd (f53 conv53 e)))"
      using step bits by (simp add: f53_def case_prod_unfold)
    show "next \<lparr>state_member = \<lparr>s0 = 0, s1 = 0, s2 = 0, s3 = 0\<rparr>\<rparr> =
          (0, \<lparr>state_member = \<lparr>s0 = 0, s1 = 0, s2 = 0, s3 = 0\<rparr>\<rparr>)"
      by (rule next_all_zero_fixed)
  qed
qed

theorem next_preserves_not_all_zero_witness:
  "\<not> all_zero (state \<lparr>state_member = \<lparr>s0 = 1, s1 = 0, s2 = 0, s3 = 0\<rparr>\<rparr>)
   \<and> \<not> all_zero (state (snd (next \<lparr>state_member = \<lparr>s0 = 1, s1 = 0, s2 = 0, s3 = 0\<rparr>\<rparr>)))
   \<and> \<not> all_zero (state (discard 256 \<lparr>state_member = \<lparr>s0 = 1, s1 = 0, s2 = 0, s3 = 0\<rparr>\<rparr>))
   \<and> bits_b 8 \<lparr>state_member = \<lparr>s0 = 1, s1 = 0, s2 = 0, s3 = 0\<rparr>\<rparr> =
       Inr (0, \<lparr>state_member = \<lparr>s0 = 1, s1 = 1, s2 = 1, s3 = 0\<rparr>\<rparr>)
   \<and> \<not> all_zero (state \<lparr>state_member = \<lparr>s0 = 1, s1 = 1, s2 = 1, s3 = 0\<rparr>\<rparr>)
   \<and> u64_limited 3 \<lparr>state_member = \<lparr>s0 = 1, s1 = 0, s2 = 0, s3 = 0\<rparr>\<rparr> =
       Some (Inr (0, \<lparr>state_member = \<lparr>s0 = 0, s1 = 1, s2 = 131072, s3 = 35184372088832\<rparr>\<rparr>))
   \<and> \<not> all_zero (state \<lparr>state_member = \<lparr>s0 = 0, s1 = 1, s2 = 131072, s3 = 35184372088832\<rparr>\<rparr>)"
proof -
  have h: "\<not> all_zero (state \<lparr>state_member = \<lparr>s0 = 1, s1 = 0, s2 = 0, s3 = 0\<rparr>\<rparr>)"
    by (simp add: all_zero_def state_def)
  from next_preserves_not_all_zero [OF h] h bits_b_example u64_limited_example
  show ?thesis by blast
qed

end
